theory Spec2Isabelle
  imports Main
begin

text \<open>
  A model of \<open>o2::mch::eval::MergeableCollection\<close>, its iterator and the string functions
  it relies on, followed by the properties of the path codec, of \<open>adopt\<close>, \<open>getObject\<close>,
  \<open>remove\<close>, \<open>Merge\<close>, \<open>attach\<close>, \<open>project\<close>, \<open>getSum\<close>, of the iterator and of the
  histogram accessors. Each source function is one definition of the same name; a loop is
  a recursive function over the elements that the container held when the loop started.
\<close>

section \<open>ROOT's TString, as far as MergeableCollection uses it\<close>

text \<open>
  A \<open>TString\<close> (and a \<open>const char*\<close>) is a \<^typ>\<open>string\<close>: a list of bytes without
  the terminating NUL. Positions and lengths are \<open>Ssiz_t\<close> values in the source; the model
  uses unbounded numbers, \<open>kNPOS\<close> (not found) is \<open>None\<close>.
\<close>

definition IsNull :: "string \<Rightarrow> bool" where
  "IsNull s = (s = [])"

definition BeginsWith :: "string \<Rightarrow> string \<Rightarrow> bool" where
  "BeginsWith s pat = (take (length pat) s = pat)"

definition EndsWith :: "string \<Rightarrow> string \<Rightarrow> bool" where
  "EndsWith s pat = (length pat \<le> length s \<and> drop (length s - length pat) s = pat)"

definition CountChar :: "string \<Rightarrow> char \<Rightarrow> int" where
  "CountChar s c = int (length (filter (\<lambda>x. x = c) s))"

text \<open>\<open>TString::Contains(pat)\<close>: \<open>pat\<close> occurs somewhere in the string (the empty
  pattern occurs in every string).\<close>

fun Contains :: "string \<Rightarrow> string \<Rightarrow> bool" where
  "Contains [] pat = (pat = [])"
| "Contains (c # cs) pat = (take (length pat) (c # cs) = pat \<or> Contains cs pat)"

text \<open>\<open>TString::ReplaceAll(s1, s2)\<close> is one pass from left to right: the leftmost
  occurrence of \<open>s1\<close> is replaced, and the search goes on behind the replacement (the
  text just written is not searched again). An empty \<open>s1\<close> changes nothing.\<close>

fun ReplaceAll :: "string \<Rightarrow> string \<Rightarrow> string \<Rightarrow> string" where
  "ReplaceAll [] s1 s2 = []"
| "ReplaceAll (c # cs) s1 s2 =
     (if s1 \<noteq> [] \<and> take (length s1) (c # cs) = s1
      then s2 @ ReplaceAll (drop (length s1) (c # cs)) s1 s2
      else c # ReplaceAll cs s1 s2)"

text \<open>\<open>TString::Index(c, start)\<close>: the first position at or after \<open>start\<close> that
  holds \<open>c\<close>.\<close>

definition Index :: "string \<Rightarrow> char \<Rightarrow> nat \<Rightarrow> nat option" where
  "Index s c start =
     (case dropWhile (\<lambda>x. x \<noteq> c) (drop start s) of
        [] \<Rightarrow> None
      | _ # _ \<Rightarrow> Some (start + length (takeWhile (\<lambda>x. x \<noteq> c) (drop start s))))"

text \<open>\<open>TString::operator()(start, len)\<close>: the substring, clipped to the string.\<close>

definition SubString :: "string \<Rightarrow> nat \<Rightarrow> nat \<Rightarrow> string" where
  "SubString s start len = take len (drop start s)"

text \<open>\<open>TString::Tokenize(delim)\<close>: the maximal runs of characters that are not in
  \<open>delim\<close>; empty tokens are dropped.\<close>

fun Tokenize_from :: "string \<Rightarrow> string \<Rightarrow> string \<Rightarrow> string list" where
  "Tokenize_from delim tok [] = (if tok = [] then [] else [tok])"
| "Tokenize_from delim tok (c # cs) =
     (if c \<in> set delim
      then (if tok = [] then [] else [tok]) @ Tokenize_from delim [] cs
      else Tokenize_from delim (tok @ [c]) cs)"

definition Tokenize :: "string \<Rightarrow> string \<Rightarrow> string list" where
  "Tokenize s delim = Tokenize_from delim [] s"

definition ToUpper :: "string \<Rightarrow> string" where
  "ToUpper s = map (\<lambda>c. if (97::nat) \<le> of_char c \<and> of_char c \<le> (122::nat)
                          then char_of (of_char c - (32::nat)) else c) s"

section \<open>The path codec\<close>

text \<open>\<open>MergeableCollection::correctIdentifier\<close>.\<close>

definition correctIdentifier :: "string \<Rightarrow> string" where
  "correctIdentifier sidentifier =
     (if \<not> IsNull sidentifier then
        (let s1 = (if \<not> EndsWith sidentifier ''/'' then sidentifier @ ''/'' else sidentifier);
             s2 = (if \<not> BeginsWith s1 ''/'' then ''/'' @ s1 else s1)
         in ReplaceAll s2 ''//'' ''/'')
      else sidentifier)"

text \<open>The loop of \<open>internalDecode\<close> that collects the positions of the separators:
  \<open>while (start < Length()) { pos = Index('/', start); if (pos == kNPOS) break;
  splitIndex.push_back(pos); start = pos + 1; }\<close>.\<close>

function splitIndexLoop :: "string \<Rightarrow> nat \<Rightarrow> nat list \<Rightarrow> nat list" where
  "splitIndexLoop sidentifier start splitIndex =
     (if start < length sidentifier then
        (case Index sidentifier CHR ''/'' start of
           None \<Rightarrow> splitIndex
         | Some pos \<Rightarrow> splitIndexLoop sidentifier (pos + 1) (splitIndex @ [pos]))
      else splitIndex)"
  by pat_completeness auto
termination
  by (relation "measure (\<lambda>(s, start, acc). length s - start)")
     (auto simp: Index_def split: list.splits)

declare splitIndexLoop.simps [simp del]

text \<open>
  \<open>MergeableCollection::internalDecode\<close>. The result is \<open>Some\<close> of the returned
  string; the two logged errors (malformed identifier, index too large) return the empty
  string as in the source. \<open>nkeys\<close> is \<open>splitIndex.size() - 1\<close> as an \<open>Int_t\<close>, that is
  \<open>-1\<close> for an identifier without separator. \<open>None\<close> stands for the one path on which the
  source has no defined result: \<open>splitIndex.back()\<close> of an empty vector, reached only with
  the empty identifier and an index below \<open>-1\<close>.
\<close>

definition internalDecode :: "string \<Rightarrow> int \<Rightarrow> string option" where
  "internalDecode identifier index =
     (if length identifier > 0 \<and> hd identifier \<noteq> CHR ''/'' then Some []
      else
        (let splitIndex = splitIndexLoop identifier 0 [];
             nkeys = int (length splitIndex) - 1
         in if index \<ge> nkeys then Some []
            else if index < 0 then
              (case rev splitIndex of
                 [] \<Rightarrow> None
               | back # _ \<Rightarrow>
                   Some (SubString identifier (back + 1) (length identifier - back - 1)))
            else
              Some (SubString identifier (splitIndex ! nat index + 1)
                     (splitIndex ! (nat index + 1) - splitIndex ! nat index - 1))))"

text \<open>\<open>MergeableCollection::getKey\<close>.\<close>

definition getKey :: "string \<Rightarrow> int \<Rightarrow> bool \<Rightarrow> string option" where
  "getKey identifier index idContainsObjName =
     (if \<not> idContainsObjName then internalDecode (identifier @ ''/dummy'') index
      else internalDecode identifier index)"

text \<open>The key segments of the claims: non-empty, without separator; and their joined
  text, one separator between two neighbours.\<close>

definition valid_segment :: "string \<Rightarrow> bool" where
  "valid_segment seg = (seg \<noteq> [] \<and> CHR ''/'' \<notin> set seg)"

fun join_segments :: "string list \<Rightarrow> string" where
  "join_segments [] = []"
| "join_segments [seg] = seg"
| "join_segments (seg # segs) = seg @ ''/'' @ join_segments segs"

text \<open>For the proofs: the positions of the separators by structural recursion, and the
  canonical text of a sequence of segments.\<close>

fun slash_pos :: "nat \<Rightarrow> string \<Rightarrow> nat list" where
  "slash_pos off [] = []"
| "slash_pos off (c # cs) = (if c = CHR ''/'' then [off] else []) @ slash_pos (Suc off) cs"

definition canonical :: "string list \<Rightarrow> string" where
  "canonical segs = concat (map (\<lambda>s. ''/'' @ s) segs) @ ''/''"

section \<open>Objects, classes and the heap\<close>

text \<open>
  The collection holds pointers to ROOT objects, to \<open>THashList\<close>s and shares them
  (\<open>attach\<close>, \<open>Merge\<close>), so pointers are addresses into an explicit store. A nullable
  pointer is an \<^typ>\<open>nat option\<close>, \<open>None\<close> the null pointer. The store is total: what a
  \<open>delete\<close> frees is not tracked, except for the lists that \<open>prune\<close> destroys, which it
  returns, and for the two cursors of the iterator below.
\<close>

type_synonym addr = nat

text \<open>
  A call that has no result defined by the source is a \<open>fault\<close>: a call through a null
  pointer or through a pointer to a destroyed object, a second \<open>delete\<close> of the same object,
  and a loop over a hash table that the loop's body adds to (which of the new entries the
  iterator still meets, and whether the loop ends, depends on the slots of the table).
\<close>

datatype fault = NullDereference | UseAfterDelete | DoubleDelete | ModifiedWhileIterated

text \<open>
  What the code asks of an object's \<open>TClass\<close> (the result of \<open>IsA()\<close>): its name, the
  names of the classes it derives from (\<open>InheritsFrom\<close>, \<open>dynamic_cast\<close>), and whether
  \<open>GetMethodWithPrototype("Merge", "TCollection*")\<close> finds a method.
\<close>

record TClass =
  ClassName :: string
  base_classes :: "string list"
  has_Merge :: bool

definition InheritsFrom :: "TClass \<Rightarrow> string \<Rightarrow> bool" where
  "InheritsFrom cl cname = (cname = ClassName cl \<or> cname \<in> set (base_classes cl))"

text \<open>
  \<open>Class()\<close> is the static member function that ROOT's \<open>ClassDef\<close> macro declares in every
  class with a dictionary, \<open>TClass\<close> included. Called through a \<open>TClass*\<close>, as in
  \<open>baseObject->IsA()->Class()\<close>, it is \<open>TClass::Class()\<close>: the dictionary entry of the
  class \<open>TClass\<close> itself, whatever object the pointer came from.
\<close>

definition TClass_Class :: TClass where
  "TClass_Class =
     \<lparr>ClassName = ''TClass'', base_classes = [''TDictionary'', ''TNamed'', ''TObject''],
      has_Merge = False\<rparr>"

definition Class :: "TClass \<Rightarrow> TClass" where
  "Class cl = TClass_Class"

text \<open>A stored object: its name, its class, and the accumulated state of the payload
  (opaque to the collection).\<close>

record 'p TObject =
  GetName :: string
  IsA :: TClass
  payload :: 'p

record THashList =
  list_name :: string
  elems :: "addr list"

record 'p heap =
  objects :: "addr \<Rightarrow> 'p TObject"
  hashlists :: "addr \<Rightarrow> THashList"
  next_addr :: addr
  gDirectory :: "string option"

text \<open>\<open>THashList::FindObject(name)\<close>: the first object of the list with that name.\<close>

definition THashList_FindObject :: "'p heap \<Rightarrow> addr \<Rightarrow> string \<Rightarrow> addr option" where
  "THashList_FindObject h hlist objectName =
     find (\<lambda>a. GetName (objects h a) = objectName) (elems (hashlists h hlist))"

definition THashList_AddLast :: "'p heap \<Rightarrow> addr \<Rightarrow> addr \<Rightarrow> 'p heap" where
  "THashList_AddLast h hlist obj =
     h\<lparr>hashlists := (hashlists h)
          (hlist := (hashlists h hlist)\<lparr>elems := elems (hashlists h hlist) @ [obj]\<rparr>)\<rparr>"

text \<open>\<open>THashList::Remove(obj)\<close>: null when the object is not in the list, otherwise its
  first occurrence is taken out.\<close>

definition THashList_Remove :: "'p heap \<Rightarrow> addr \<Rightarrow> addr \<Rightarrow> 'p heap option" where
  "THashList_Remove h hlist obj =
     (if obj \<in> set (elems (hashlists h hlist))
      then Some (h\<lparr>hashlists := (hashlists h)
              (hlist := (hashlists h hlist)\<lparr>elems := remove1 obj (elems (hashlists h hlist))\<rparr>)\<rparr>)
      else None)"

text \<open>\<open>new THashList; SetOwner(kTRUE); SetName(identifier)\<close>.\<close>

definition new_THashList :: "'p heap \<Rightarrow> string \<Rightarrow> 'p heap \<times> addr" where
  "new_THashList h identifier =
     (h\<lparr>hashlists := (hashlists h)(next_addr h := \<lparr>list_name = identifier, elems = []\<rparr>),
        next_addr := Suc (next_addr h)\<rparr>, next_addr h)"

text \<open>\<open>obj->Clone()\<close>: a new object with the same name, class and state.\<close>

definition Clone :: "'p heap \<Rightarrow> addr \<Rightarrow> 'p heap \<times> addr" where
  "Clone h obj =
     (h\<lparr>objects := (objects h)(next_addr h := objects h obj), next_addr := Suc (next_addr h)\<rparr>,
      next_addr h)"

section \<open>The store\<close>

text \<open>
  A \<open>TMap\<close> from \<open>TObjString\<close> keys to \<open>THashList*\<close> values is the list of its pairs:
  \<open>TMap::Add\<close> does not look for the key, so a key can occur twice, and a lookup finds
  the pair added first. The order of the list stands for the fixed order in which the hash
  table is traversed. A value can be a null pointer.
\<close>

type_synonym TMap = "(string \<times> addr option) list"

definition TMap_GetValue :: "TMap \<Rightarrow> string \<Rightarrow> addr option" where
  "TMap_GetValue m keyname = (case map_of m keyname of None \<Rightarrow> None | Some v \<Rightarrow> v)"

definition TMap_Add :: "TMap \<Rightarrow> string \<Rightarrow> addr option \<Rightarrow> TMap" where
  "TMap_Add m keyname v = m @ [(keyname, v)]"

fun TMap_RemoveEntry :: "TMap \<Rightarrow> string \<Rightarrow> TMap" where
  "TMap_RemoveEntry [] keyname = []"
| "TMap_RemoveEntry ((k, v) # m) keyname =
     (if k = keyname then m else (k, v) # TMap_RemoveEntry m keyname)"

text \<open>\<open>TMap::DeleteEntry(key)\<close>: removes the first pair with the key; false when there is
  none.\<close>

definition TMap_DeleteEntry :: "TMap \<Rightarrow> string \<Rightarrow> TMap \<times> bool" where
  "TMap_DeleteEntry m keyname =
     (if keyname \<in> fst ` set m then (TMap_RemoveEntry m keyname, True) else (m, False))"

record MergeableCollection =
  folder_name :: string
  folder_title :: string
  fMap :: "TMap option"
  fMustShowEmptyObject :: bool
  fMapVersion :: int
  fMessages :: "(string \<times> int) list"

text \<open>The constructor.\<close>

definition new_MergeableCollection :: "string \<Rightarrow> string \<Rightarrow> MergeableCollection" where
  "new_MergeableCollection cname title =
     \<lparr>folder_name = cname, folder_title = title, fMap = None, fMustShowEmptyObject = False,
      fMapVersion = 0, fMessages = []\<rparr>"

definition TMap_of :: "MergeableCollection \<Rightarrow> TMap" where
  "TMap_of c = (case fMap c of None \<Rightarrow> [] | Some m \<Rightarrow> m)"

text \<open>
  \<open>MergeableCollection::Map\<close>. It creates the map when there is none and, for a map in
  the old key format (\<open>fMapVersion < 1\<close>), renames the keys that contain \<open>./\<close>: the loop
  visits the keys the map had on entry, in order, and for each such key takes its value, removes
  the pair, and adds the value under the new key. (A key of the map is always found, so the
  branch that gives up with a null map is not taken; it leaves the map as it is.)
  The returned pointer is the \<open>fMap\<close> of the result.
\<close>

fun Map_rekey :: "string list \<Rightarrow> TMap \<Rightarrow> TMap" where
  "Map_rekey [] m = m"
| "Map_rekey (str # strs) m =
     (if Contains str ''./'' then
        (if str \<in> fst ` set m
         then Map_rekey strs
                (TMap_Add (TMap_RemoveEntry m str) (ReplaceAll str ''./'' []) (TMap_GetValue m str))
         else m)
      else Map_rekey strs m)"

definition Map :: "MergeableCollection \<Rightarrow> MergeableCollection" where
  "Map c =
     (case fMap c of
        None \<Rightarrow> c\<lparr>fMap := Some [], fMapVersion := 1\<rparr>
      | Some m \<Rightarrow>
          if fMapVersion c < 1
          then c\<lparr>fMap := Some (Map_rekey (map fst m) m), fMapVersion := 1\<rparr>
          else c)"

text \<open>\<open>fMessages[msg]++\<close>.\<close>

fun count_message :: "(string \<times> int) list \<Rightarrow> string \<Rightarrow> (string \<times> int) list" where
  "count_message [] msg = [(msg, 1)]"
| "count_message ((k, n) # ms) msg =
     (if k = msg then (k, n + 1) # ms else (k, n) # count_message ms msg)"

text \<open>
  \<open>MergeableCollection::internalAdopt\<close>: the heap and the collection after the call, and
  the returned flag. What the call reports is \<open>internalAdopt_reports\<close> below (after the
  message for an object that is not mergeable the source goes on). \<open>SetDirectory(0)\<close>
  detaches a histogram from ROOT's current directory, which is not part of the state here.
\<close>

definition internalAdopt ::
  "'p heap \<Rightarrow> MergeableCollection \<Rightarrow> string \<Rightarrow> addr option
     \<Rightarrow> ('p heap \<times> MergeableCollection) \<times> bool" where
  "internalAdopt h c identifier obj =
     (case obj of
        None \<Rightarrow> ((h, c), False)
      | Some a \<Rightarrow>
          (let c1 = Map c;
               (h1, c2, hlist) =
                 (case TMap_GetValue (TMap_of c1) identifier of
                    Some l \<Rightarrow> (h, c1, l)
                  | None \<Rightarrow>
                      (let (h', l) = new_THashList h identifier
                       in (h', c1\<lparr>fMap := Some (TMap_Add (TMap_of c1) identifier (Some l))\<rparr>, l)))
           in case THashList_FindObject h1 hlist (GetName (objects h1 a)) of
                Some existingObj \<Rightarrow> ((h1, c2), False)
              | None \<Rightarrow> ((THashList_AddLast h1 hlist a, c2), True)))"

text \<open>\<open>adopt(obj)\<close> and \<open>adopt(identifier, obj)\<close>.\<close>

definition adopt_top ::
  "'p heap \<Rightarrow> MergeableCollection \<Rightarrow> addr option \<Rightarrow> ('p heap \<times> MergeableCollection) \<times> bool" where
  "adopt_top h c obj = internalAdopt h c [] obj"

definition adopt ::
  "'p heap \<Rightarrow> MergeableCollection \<Rightarrow> string \<Rightarrow> addr option
     \<Rightarrow> ('p heap \<times> MergeableCollection) \<times> bool" where
  "adopt h c identifier obj = internalAdopt h c (correctIdentifier identifier) obj"





text \<open>\<open>MergeableCollection::internalObject\<close>; the collection comes back with the
  messages it has counted.\<close>

definition internalObject ::
  "'p heap \<Rightarrow> MergeableCollection \<Rightarrow> string \<Rightarrow> string \<Rightarrow> MergeableCollection \<times> addr option" where
  "internalObject h c identifier objectName =
     (case fMap c of
        None \<Rightarrow> (c, None)
      | Some _ \<Rightarrow>
          (let c1 = Map c in
           case TMap_GetValue (TMap_of c1) identifier of
             None \<Rightarrow>
               (c1\<lparr>fMessages := count_message (fMessages c1)
                      (''Did not find hashlist for identifier='' @ identifier @ '' dir=''
                        @ (case gDirectory h of None \<Rightarrow> [] | Some d \<Rightarrow> d))\<rparr>, None)
           | Some hlist \<Rightarrow>
               (case THashList_FindObject h hlist objectName of
                  None \<Rightarrow>
                    (c1\<lparr>fMessages := count_message (fMessages c1)
                           (''Did not find objectName='' @ objectName @ '' in '' @ identifier)\<rparr>,
                     None)
                | Some obj \<Rightarrow> (c1, Some obj))))"

text \<open>\<open>getIdentifier\<close> and \<open>getObjectName\<close>. Both call \<open>internalDecode\<close> with an index
  of at least \<open>-1\<close>, where it always has a result (lemma \<open>internalDecode_defined\<close>).\<close>

definition getIdentifier :: "string \<Rightarrow> string" where
  "getIdentifier fullIdentifier =
     (let n = CountChar fullIdentifier CHR ''/'' - 1
      in concat (map (\<lambda>i. ''/'' @ the (internalDecode fullIdentifier (int i))) [0..<nat n]) @ ''/'')"

definition getObjectName :: "string \<Rightarrow> string" where
  "getObjectName fullIdentifier = the (internalDecode fullIdentifier (- 1))"

text \<open>\<open>getObject(identifier, objectName)\<close> and \<open>getObject(fullIdentifier)\<close>.\<close>

definition getObject2 ::
  "'p heap \<Rightarrow> MergeableCollection \<Rightarrow> string \<Rightarrow> string \<Rightarrow> MergeableCollection \<times> addr option" where
  "getObject2 h c identifier objectName =
     (let sidentifier =
            (if \<not> IsNull identifier then
               (let s1 = (if \<not> BeginsWith identifier ''/'' then ''/'' @ identifier else identifier)
                in if \<not> EndsWith s1 ''/'' then s1 @ ''/'' else s1)
             else identifier)
      in internalObject h c sidentifier objectName)"

definition getObject ::
  "'p heap \<Rightarrow> MergeableCollection \<Rightarrow> string \<Rightarrow> MergeableCollection \<times> addr option" where
  "getObject h c fullIdentifier =
     (if CountChar fullIdentifier CHR ''/'' = 0 then getObject2 h c [] fullIdentifier
      else getObject2 h c (getIdentifier fullIdentifier) (getObjectName fullIdentifier))"

definition numberOfKeys :: "MergeableCollection \<Rightarrow> int" where
  "numberOfKeys c = (case fMap c of None \<Rightarrow> 0 | Some m \<Rightarrow> int (length m))"

text \<open>\<open>MergeableCollection::remove\<close>: the removed object, or null.\<close>

definition remove ::
  "'p heap \<Rightarrow> MergeableCollection \<Rightarrow> string \<Rightarrow> ('p heap \<times> MergeableCollection) \<times> addr option" where
  "remove h c fullIdentifier =
     (let identifier = getIdentifier fullIdentifier;
          c1 = Map c
      in case TMap_GetValue (TMap_of c1) identifier of
           None \<Rightarrow> ((h, c1), None)
         | Some hlist \<Rightarrow>
             (let (c2, obj) = getObject h c1 fullIdentifier
              in case obj of
                   None \<Rightarrow> ((h, c2), None)
                 | Some a \<Rightarrow>
                     (case THashList_Remove h hlist a of
                        None \<Rightarrow> ((h, c2), None)
                      | Some h' \<Rightarrow> ((h', c2), Some a))))"

section \<open>Merging\<close>

text \<open>
  \<open>MergeableCollection::MergeObject\<close>. The payload's own \<open>Merge(TCollection*)\<close>, which
  the source calls through \<open>TMethodCall\<close> with a list that holds \<open>objToAdd\<close>, is the
  parameter \<open>call_Merge\<close>: the base object after the call, given the base object and the
  object to add. Both sides of the first comparison are \<open>IsA()->Class()\<close>; the two
  tests joined by \<open>||\<close> in the source are tested one after the other.
\<close>

definition MergeObject ::
  "('p TObject \<Rightarrow> 'p TObject \<Rightarrow> 'p TObject) \<Rightarrow> 'p heap \<Rightarrow> addr \<Rightarrow> addr \<Rightarrow> 'p heap \<times> bool" where
  "MergeObject call_Merge h baseObject objToAdd =
     (if Class (IsA (objects h baseObject)) \<noteq> Class (IsA (objects h objToAdd)) then (h, False)
      else if \<not> InheritsFrom (IsA (objects h baseObject)) ''TObject'' then (h, False)
      else if \<not> has_Merge (IsA (objects h baseObject)) then (h, False)
      else (h\<lparr>objects := (objects h)
                 (baseObject := call_Merge (objects h baseObject) (objects h objToAdd))\<rparr>, True))"

text \<open>
  \<open>MergeableCollection::Merge\<close>. An element of the list is a \<open>MergeableCollection\<close> or
  some other object (the \<open>dynamic_cast\<close> fails; with the standalone build's logging the loop
  goes on). The three nested loops are the three functions below; each runs over the
  keys, respectively the objects, that the container held when the loop started. The
  collections are values here: the destination is returned as it is after the call, a source
  is only read (the key migration that \<open>Map()\<close> may perform on it shows in the keys the loop
  visits).
\<close>

datatype listed = is_Collection: Collection MergeableCollection | Other addr

fun Merge_objects ::
  "('p TObject \<Rightarrow> 'p TObject \<Rightarrow> 'p TObject) \<Rightarrow> 'p heap \<Rightarrow> MergeableCollection \<Rightarrow> string
     \<Rightarrow> addr list \<Rightarrow> 'p heap \<times> MergeableCollection" where
  "Merge_objects call_Merge h c identifier [] = (h, c)"
| "Merge_objects call_Merge h c identifier (obj # objs) =
     (let newid = identifier @ GetName (objects h obj);
          (c1, thisObject) = getObject h c newid
      in case thisObject of
           None \<Rightarrow>
             (let (h1, clone) = Clone h obj;
                  ((h2, c2), ok) = adopt h1 c1 identifier (Some clone)
              in Merge_objects call_Merge h2 c2 identifier objs)
         | Some t \<Rightarrow>
             (let (h1, ok) = MergeObject call_Merge h t obj
              in Merge_objects call_Merge h1 c1 identifier objs))"

fun Merge_identifiers ::
  "('p TObject \<Rightarrow> 'p TObject \<Rightarrow> 'p TObject) \<Rightarrow> 'p heap \<Rightarrow> MergeableCollection \<Rightarrow> TMap
     \<Rightarrow> string list \<Rightarrow> 'p heap \<times> MergeableCollection" where
  "Merge_identifiers call_Merge h c m [] = (h, c)"
| "Merge_identifiers call_Merge h c m (identifier # identifiers) =
     (let (h1, c1) =
            (case TMap_GetValue m identifier of
               None \<Rightarrow> (h, c)
             | Some otherList \<Rightarrow>
                 Merge_objects call_Merge h c identifier (elems (hashlists h otherList)))
      in Merge_identifiers call_Merge h1 c1 m identifiers)"

fun Merge_collections ::
  "('p TObject \<Rightarrow> 'p TObject \<Rightarrow> 'p TObject) \<Rightarrow> 'p heap \<Rightarrow> MergeableCollection \<Rightarrow> listed list
     \<Rightarrow> int \<Rightarrow> ('p heap \<times> MergeableCollection) \<times> int" where
  "Merge_collections call_Merge h c [] count = ((h, c), count)"
| "Merge_collections call_Merge h c (Other a # rest) count =
     Merge_collections call_Merge h c rest count"
| "Merge_collections call_Merge h c (Collection mergeCol # rest) count =
     (let mergeCol1 = (if fMap mergeCol \<noteq> None then Map mergeCol else mergeCol);
          (h1, c1) = Merge_identifiers call_Merge h c (TMap_of mergeCol1)
                       (map fst (TMap_of mergeCol1))
      in Merge_collections call_Merge h1 c1 rest (count + 1))"

definition Merge ::
  "('p TObject \<Rightarrow> 'p TObject \<Rightarrow> 'p TObject) \<Rightarrow> 'p heap \<Rightarrow> MergeableCollection
     \<Rightarrow> listed list option \<Rightarrow> ('p heap \<times> MergeableCollection) \<times> int" where
  "Merge call_Merge h c list =
     (case list of
        None \<Rightarrow> ((h, c), 0)
      | Some xs \<Rightarrow>
          if xs = [] then ((h, c), 1)
          else (let (hc, count) = Merge_collections call_Merge h c xs 0 in (hc, count + 1)))"

section \<open>prune, attach, project\<close>

text \<open>
  \<open>MergeableCollection::prune\<close>: the number of map entries deleted. The map owns its keys
  and values (\<open>SetOwnerKeyValue(kTRUE, kTRUE)\<close> in \<open>Map\<close>), so \<open>DeleteEntry\<close> destroys the
  \<open>THashList\<close> of the entry, and the list the objects it owns. The destroyed lists are
  returned with the collection.
\<close>

fun prune_loop ::
  "string list \<Rightarrow> string \<Rightarrow> TMap \<Rightarrow> int \<Rightarrow> addr list \<Rightarrow> (TMap \<times> addr list) \<times> int" where
  "prune_loop [] identifier m ndeleted destroyed = ((m, destroyed), ndeleted)"
| "prune_loop (k # ks) identifier m ndeleted destroyed =
     (if BeginsWith k identifier then
        (let v = TMap_GetValue m k;
             (m', ok) = TMap_DeleteEntry m k
         in if ok
            then prune_loop ks identifier m' (ndeleted + 1)
                   (destroyed @ (case v of None \<Rightarrow> [] | Some l \<Rightarrow> [l]))
            else prune_loop ks identifier m' ndeleted destroyed)
      else prune_loop ks identifier m ndeleted destroyed)"

definition prune ::
  "MergeableCollection \<Rightarrow> string \<Rightarrow> (MergeableCollection \<times> addr list) \<times> int" where
  "prune c identifier =
     (let c1 = Map c;
          ((m, destroyed), ndeleted) =
            prune_loop (map fst (TMap_of c1)) identifier (TMap_of c1) 0 []
      in ((c1\<lparr>fMap := Some m\<rparr>, destroyed), ndeleted))"

text \<open>
  \<open>MergeableCollection::attach\<close> works on two collections through pointers, \<open>this\<close> and
  \<open>mc\<close>, which may be one and the same object: the collections are cells of a store, and
  the call gets the two addresses. The loop runs over the keys of \<open>mc->fMap\<close>; the value
  added to this collection's map is the pointer \<open>hl\<close> that \<open>mc\<close>'s map holds. With
  \<open>mc == this\<close> the loop adds to the very map it iterates: a fault, once the loop has a key
  to visit. The result is the store of collections after the call, the lists that \<open>prune\<close>
  has destroyed, and the returned flag.
\<close>

type_synonym collections = "addr \<Rightarrow> MergeableCollection"

fun attach_loop ::
  "collections \<Rightarrow> addr \<Rightarrow> addr \<Rightarrow> string \<Rightarrow> string list \<Rightarrow> fault + collections" where
  "attach_loop cs this mc identifier [] = Inr cs"
| "attach_loop cs this mc identifier (str # strs) =
     (if mc = this then Inl ModifiedWhileIterated
      else
        (let cs1 = cs(mc := Map (cs mc));
             hl = TMap_GetValue (TMap_of (cs1 mc)) str;
             newid = ReplaceAll (''/'' @ identifier @ str) ''//'' ''/'';
             cs2 = cs1(this := Map (cs1 this))
         in attach_loop
              (cs2(this := (cs2 this)\<lparr>fMap := Some (TMap_Add (TMap_of (cs2 this)) newid hl)\<rparr>))
              this mc identifier strs))"

definition attach ::
  "collections \<Rightarrow> addr \<Rightarrow> addr \<Rightarrow> string \<Rightarrow> bool
     \<Rightarrow> fault + ((collections \<times> addr list) \<times> bool)" where
  "attach cs this mc identifier pruneFirstIfAlreadyExists =
     (let cs1 = cs(this := Map (cs this)) in
      case TMap_GetValue (TMap_of (cs1 this)) identifier of
        Some hlist \<Rightarrow>
          if \<not> pruneFirstIfAlreadyExists then Inr ((cs1, []), False)
          else
            (let ((c2, destroyed), n) = prune (cs1 this) identifier;
                 cs2 = cs1(this := c2)
             in if n = 0 then Inr ((cs2, destroyed), False)
                else
                  (case attach_loop cs2 this mc identifier (map fst (TMap_of (cs2 mc))) of
                     Inl f \<Rightarrow> Inl f
                   | Inr cs3 \<Rightarrow> Inr ((cs3, destroyed), True)))
      | None \<Rightarrow>
          (case attach_loop cs1 this mc identifier (map fst (TMap_of (cs1 mc))) of
             Inl f \<Rightarrow> Inl f
           | Inr cs3 \<Rightarrow> Inr ((cs3, []), True)))"

text \<open>\<open>MergeableCollection::project\<close>: the new collection, or null when this one has no
  map.\<close>

fun project_objects ::
  "'p heap \<Rightarrow> MergeableCollection \<Rightarrow> string \<Rightarrow> string \<Rightarrow> addr list
     \<Rightarrow> 'p heap \<times> MergeableCollection" where
  "project_objects h mergCol currIdentifier identifier [] = (h, mergCol)"
| "project_objects h mergCol currIdentifier identifier (obj # objs) =
     (let (h1, clone) = Clone h obj;
          newkey0 = ReplaceAll currIdentifier identifier [];
          newkey = (if newkey0 = ''/'' then [] else newkey0);
          ((h2, mergCol1), ok) = internalAdopt h1 mergCol newkey (Some clone)
      in project_objects h2 mergCol1 currIdentifier identifier objs)"

fun project_loop ::
  "'p heap \<Rightarrow> MergeableCollection \<Rightarrow> MergeableCollection \<Rightarrow> string \<Rightarrow> string list
     \<Rightarrow> 'p heap \<times> MergeableCollection" where
  "project_loop h c mergCol identifier [] = (h, mergCol)"
| "project_loop h c mergCol identifier (currIdentifier # rest) =
     (if \<not> Contains currIdentifier identifier then project_loop h c mergCol identifier rest
      else
        (let (h1, mergCol1) =
               (case TMap_GetValue (TMap_of c) identifier of
                  None \<Rightarrow> (h, mergCol)
                | Some l \<Rightarrow>
                    project_objects h mergCol currIdentifier identifier (elems (hashlists h l)))
         in project_loop h1 c mergCol1 identifier rest))"

definition project ::
  "'p heap \<Rightarrow> MergeableCollection \<Rightarrow> string
     \<Rightarrow> ('p heap \<times> MergeableCollection) \<times> MergeableCollection option" where
  "project h c identifier =
     (case fMap c of
        None \<Rightarrow> ((h, c), None)
      | Some _ \<Rightarrow>
          (let mergCol = new_MergeableCollection (folder_name c @ '' '' @ identifier)
                           (folder_title c);
               c1 = Map c;
               (h1, mergCol1) = project_loop h c1 mergCol identifier (map fst (TMap_of c1))
           in ((h1, c1), Some mergCol1)))"

section \<open>getSum\<close>

text \<open>
  \<open>MergeableCollection::getSum\<close>. \<open>keyMatrix\<close> is the pattern split at \<open>/\<close> and each part
  at \<open>,\<close>. The two inner search loops with \<open>break\<close> are \<open>matchKey\<close>; the loop over the key
  levels \<open>ikey < keyMatrix.GetEntries() - 1\<close> is \<open>listMatchPattern\<close>.
\<close>

definition keyMatrix_of :: "string \<Rightarrow> string list list" where
  "keyMatrix_of idPattern = map (\<lambda>str. Tokenize str '','') (Tokenize idPattern ''/'')"

definition matchKey :: "string \<Rightarrow> string list \<Rightarrow> bool" where
  "matchKey currKey subKeyList = list_ex (\<lambda>subKeyString. currKey = subKeyString) subKeyList"

definition listMatchPattern :: "string list list \<Rightarrow> string \<Rightarrow> bool" where
  "listMatchPattern keyMatrix identifier =
     list_all (\<lambda>ikey. matchKey (the (getKey identifier (int ikey) False)) (keyMatrix ! ikey))
       [0..<length keyMatrix - 1]"

text \<open>\<open>keyMatrix.Last()\<close>: null for an empty array, and then no name matches.\<close>

definition lastSubKeyList :: "string list list \<Rightarrow> string list" where
  "lastSubKeyList keyMatrix = (if keyMatrix = [] then [] else last keyMatrix)"

fun getSum_objects ::
  "('p TObject \<Rightarrow> 'p TObject \<Rightarrow> 'p TObject) \<Rightarrow> 'p heap \<Rightarrow> string list list \<Rightarrow> addr option
     \<Rightarrow> addr list \<Rightarrow> 'p heap \<times> addr option" where
  "getSum_objects call_Merge h keyMatrix sumObject [] = (h, sumObject)"
| "getSum_objects call_Merge h keyMatrix sumObject (obj # objs) =
     (if \<not> matchKey (GetName (objects h obj)) (lastSubKeyList keyMatrix)
      then getSum_objects call_Merge h keyMatrix sumObject objs
      else
        (case sumObject of
           None \<Rightarrow>
             (let (h1, clone) = Clone h obj
              in getSum_objects call_Merge h1 keyMatrix (Some clone) objs)
         | Some s \<Rightarrow>
             (let (h1, ok) = MergeObject call_Merge h s obj
              in getSum_objects call_Merge h1 keyMatrix (Some s) objs)))"

fun getSum_identifiers ::
  "('p TObject \<Rightarrow> 'p TObject \<Rightarrow> 'p TObject) \<Rightarrow> 'p heap \<Rightarrow> TMap \<Rightarrow> string list list
     \<Rightarrow> addr option \<Rightarrow> string list \<Rightarrow> 'p heap \<times> addr option" where
  "getSum_identifiers call_Merge h m keyMatrix sumObject [] = (h, sumObject)"
| "getSum_identifiers call_Merge h m keyMatrix sumObject (identifier # identifiers) =
     (if \<not> listMatchPattern keyMatrix identifier
      then getSum_identifiers call_Merge h m keyMatrix sumObject identifiers
      else
        (let (h1, sumObject1) =
               (case TMap_GetValue m identifier of
                  None \<Rightarrow> (h, sumObject)
                | Some l \<Rightarrow>
                    getSum_objects call_Merge h keyMatrix sumObject (elems (hashlists h l)))
         in getSum_identifiers call_Merge h1 m keyMatrix sumObject1 identifiers))"

definition getSum ::
  "('p TObject \<Rightarrow> 'p TObject \<Rightarrow> 'p TObject) \<Rightarrow> 'p heap \<Rightarrow> MergeableCollection \<Rightarrow> string
     \<Rightarrow> ('p heap \<times> MergeableCollection) \<times> addr option" where
  "getSum call_Merge h c idPattern =
     (let keyMatrix = keyMatrix_of idPattern;
          c1 = Map c;
          (h1, sumObject) = getSum_identifiers call_Merge h (TMap_of c1) keyMatrix None
                              (map fst (TMap_of c1))
      in ((h1, c1), sumObject))"

section \<open>The iterator\<close>

text \<open>
  The iterator owns two cursors through raw pointers. A pointer is null, or points to a
  live cursor (the elements it has not returned yet), or still holds the address of a
  cursor that \<open>delete\<close> has destroyed. Calling through a destroyed cursor, deleting it once
  more, or calling through a null pointer has no defined result: a \<open>fault\<close>.
\<close>

datatype 'a pointer = Null | Live 'a | Deleted

record MergeableCollectionIterator =
  fkMergeableCollection :: MergeableCollection
  fMapIterator :: "string list pointer"
  fHashListIterator :: "addr list pointer"
  fDirection :: bool

text \<open>\<open>MakeIterator(fDirection)\<close>: forward (\<open>kIterForward = kTRUE\<close>) or backward.\<close>

definition MakeIterator :: "bool \<Rightarrow> 'a list \<Rightarrow> 'a list" where
  "MakeIterator dir xs = (if dir then xs else rev xs)"

text \<open>\<open>MergeableCollection::createIterator\<close> with the iterator's constructor.\<close>

definition createIterator :: "MergeableCollection \<Rightarrow> bool \<Rightarrow> MergeableCollectionIterator option" where
  "createIterator c direction =
     (case fMap c of
        None \<Rightarrow> None
      | Some _ \<Rightarrow>
          Some \<lparr>fkMergeableCollection = c, fMapIterator = Null, fHashListIterator = Null,
                fDirection = direction\<rparr>)"

text \<open>The \<open>delete p;\<close> statement: the pointer keeps its value.\<close>

definition delete_pointer :: "'a pointer \<Rightarrow> fault + 'a pointer" where
  "delete_pointer p = (case p of Null \<Rightarrow> Inr Null | Live x \<Rightarrow> Inr Deleted | Deleted \<Rightarrow> Inl DoubleDelete)"

text \<open>\<open>MergeableCollectionIterator::Reset\<close>: the two \<open>delete\<close> statements and nothing
  else.\<close>

definition Reset :: "MergeableCollectionIterator \<Rightarrow> fault + MergeableCollectionIterator" where
  "Reset it =
     (case delete_pointer (fHashListIterator it) of
        Inl f \<Rightarrow> Inl f
      | Inr p \<Rightarrow>
          (case delete_pointer (fMapIterator it) of
             Inl f \<Rightarrow> Inl f
           | Inr q \<Rightarrow> Inr (it\<lparr>fHashListIterator := p, fMapIterator := q\<rparr>)))"

text \<open>What is left to visit; it decreases with every recursive call of \<open>Next\<close>.\<close>

definition Next_measure :: "MergeableCollectionIterator \<Rightarrow> nat" where
  "Next_measure it =
     2 * (case fMapIterator it of
            Null \<Rightarrow> Suc (length (TMap_of (fkMergeableCollection it)))
          | Live ks \<Rightarrow> length ks
          | Deleted \<Rightarrow> 0)
     + (case fHashListIterator it of Null \<Rightarrow> 0 | Live objs \<Rightarrow> 1 | Deleted \<Rightarrow> 1)"

text \<open>
  The first half of \<open>Next\<close>, up to \<open>fHashListIterator = list->MakeIterator(fDirection)\<close>:
  either it returns (a fault, or null: no more keys, or a key without list), or the iterator
  goes on to the second half.
\<close>

definition Next_enter ::
  "'p heap \<Rightarrow> MergeableCollectionIterator
     \<Rightarrow> fault + (MergeableCollectionIterator \<times> bool)" where
  "Next_enter h it =
     (if fHashListIterator it = Null then
        (case (if fMapIterator it = Null
               then (case fMap (fkMergeableCollection it) of
                       None \<Rightarrow> Inl NullDereference
                     | Some m \<Rightarrow> Inr (it\<lparr>fMapIterator := Live (MakeIterator (fDirection it) (map fst m))\<rparr>))
               else Inr it) of
           Inl f \<Rightarrow> Inl f
         | Inr it1 \<Rightarrow>
             (case fMapIterator it1 of
                Null \<Rightarrow> Inl NullDereference
              | Deleted \<Rightarrow> Inl UseAfterDelete
              | Live [] \<Rightarrow> Inr (it1, True)
              | Live (k # ks) \<Rightarrow>
                  (let c1 = Map (fkMergeableCollection it1);
                       it2 = it1\<lparr>fMapIterator := Live ks, fkMergeableCollection := c1\<rparr>
                   in case TMap_GetValue (TMap_of c1) k of
                        None \<Rightarrow> Inr (it2, True)
                      | Some l \<Rightarrow>
                          Inr (it2\<lparr>fHashListIterator :=
                                     Live (MakeIterator (fDirection it2) (elems (hashlists h l)))\<rparr>,
                               False))))
      else Inr (it, False))"

text \<open>\<open>MergeableCollectionIterator::Next\<close>: a fault, or the iterator after the call with
  the returned object (null: no more elements).\<close>

function Next ::
  "'p heap \<Rightarrow> MergeableCollectionIterator \<Rightarrow> fault + (MergeableCollectionIterator \<times> addr option)" where
  "Next h it =
     (case Next_enter h it of
        Inl f \<Rightarrow> Inl f
      | Inr (it1, True) \<Rightarrow> Inr (it1, None)
      | Inr (it1, False) \<Rightarrow>
          (case fHashListIterator it1 of
             Null \<Rightarrow> Inl NullDereference
           | Deleted \<Rightarrow> Inl UseAfterDelete
           | Live [] \<Rightarrow> Next h (it1\<lparr>fHashListIterator := Null\<rparr>)
           | Live (obj # objs) \<Rightarrow> Inr (it1\<lparr>fHashListIterator := Live objs\<rparr>, Some obj)))"
  by pat_completeness auto
termination
proof -
  have L: "\<And>d (m::TMap) k ks. MakeIterator d (map fst m) = k # ks \<Longrightarrow> length ks < Suc (length m)"
  proof -
    fix d and m :: TMap and k ks
    assume "MakeIterator d (map fst m) = k # ks"
    then have "length (MakeIterator d (map fst m)) = Suc (length ks)" by simp
    then show "length ks < Suc (length m)" by (simp add: MakeIterator_def split: if_splits)
  qed
  show ?thesis
    by (relation "measure (\<lambda>(h, it). Next_measure it)")
       (auto simp: Next_enter_def Next_measure_def TMap_of_def Let_def dest: L
             split: if_splits sum.splits option.splits pointer.splits list.splits)
qed

section \<open>The histogram accessors\<close>

text \<open>
  What \<open>histo\<close> returns: the stored object itself, or a new histogram that ROOT derives from
  a stored two-dimensional one (\<open>ProjectionX\<close>, \<open>ProjectionY\<close>, \<open>ProfileX\<close>, \<open>ProfileY\<close>),
  described by its new name and the object it comes from.
\<close>

datatype histogram =
    Stored addr
  | ProjectionX string addr
  | ProjectionY string addr
  | ProfileX string addr
  | ProfileY string addr

definition normalizeName :: "MergeableCollection \<Rightarrow> string \<Rightarrow> string \<Rightarrow> string" where
  "normalizeName c identifier action =
     ReplaceAll (ReplaceAll (folder_name c @ ''_'' @ identifier @ ''_'' @ action) ''/'' ''_'')
       ''-'' ''_''"

definition histoWithAction ::
  "'p heap \<Rightarrow> MergeableCollection \<Rightarrow> string \<Rightarrow> addr option \<Rightarrow> string \<Rightarrow> histogram option" where
  "histoWithAction h c identifier obj action =
     (case obj of
        None \<Rightarrow> None
      | Some a \<Rightarrow>
          if \<not> InheritsFrom (IsA (objects h a)) ''TH1'' then None
          else if InheritsFrom (IsA (objects h a)) ''TH2'' then
            (let nm = normalizeName c (identifier @ ''/'' @ GetName (objects h a)) action
             in if action = ''PX'' then Some (ProjectionX nm a)
                else if action = ''PY'' then Some (ProjectionY nm a)
                else if action = ''PFX'' then Some (ProfileX nm a)
                else if action = ''PFY'' then Some (ProfileY nm a)
                else Some (Stored a))
          else Some (Stored a))"

text \<open>
  \<open>histo(fullIdentifier)\<close>. With a colon in the identifier the source reads \<open>arr->At(0)\<close>
  of the tokens without a check; an identifier made of colons only has no token.
\<close>

definition histo ::
  "'p heap \<Rightarrow> MergeableCollection \<Rightarrow> string \<Rightarrow> MergeableCollection \<times> (fault + histogram option)" where
  "histo h c fullIdentifier =
     (case (if CHR '':'' \<in> set fullIdentifier then
              (case Tokenize fullIdentifier '':'' of
                 [] \<Rightarrow> Inl NullDereference
               | first # others \<Rightarrow>
                   Inr (first, (case others of [] \<Rightarrow> [] | second # _ \<Rightarrow> ToUpper second)))
            else Inr (fullIdentifier, [])) of
        Inl f \<Rightarrow> (c, Inl f)
      | Inr (fullIdWithoutAction, action) \<Rightarrow>
          (let (c1, obj) =
                 (if CountChar fullIdentifier CHR ''/'' = 0 then getObject2 h c [] fullIdWithoutAction
                  else getObject2 h c (getIdentifier fullIdWithoutAction)
                         (getObjectName fullIdWithoutAction))
           in (c1, Inr (histoWithAction h c1 fullIdWithoutAction obj action))))"

text \<open>\<open>h2(fullIdentifier)\<close> and \<open>prof(fullIdentifier)\<close>: \<open>o->IsA()\<close> is evaluated on
  whatever \<open>getObject\<close> returned.\<close>

definition h2 ::
  "'p heap \<Rightarrow> MergeableCollection \<Rightarrow> string \<Rightarrow> MergeableCollection \<times> (fault + addr option)" where
  "h2 h c fullIdentifier =
     (let (c1, obj) = getObject h c fullIdentifier
      in case obj of
           None \<Rightarrow> (c1, Inl NullDereference)
         | Some a \<Rightarrow>
             (c1, Inr (if InheritsFrom (IsA (objects h a)) ''TH2'' then Some a else None)))"

definition prof ::
  "'p heap \<Rightarrow> MergeableCollection \<Rightarrow> string \<Rightarrow> MergeableCollection \<times> (fault + addr option)" where
  "prof h c fullIdentifier =
     (let (c1, obj) = getObject h c fullIdentifier
      in case obj of
           None \<Rightarrow> (c1, Inl NullDereference)
         | Some a \<Rightarrow>
             (c1, Inr (if InheritsFrom (IsA (objects h a)) ''TProfile'' then Some a else None)))"

section \<open>getSum as a filter and a fold\<close>

text \<open>
  The entries of a store in the order of the traversal: for each key of the map, in order,
  the objects of the list that the map gives for this key, in order.
\<close>

definition stored_entries :: "'p heap \<Rightarrow> TMap \<Rightarrow> (string \<times> addr) list" where
  "stored_entries h m =
     concat (map (\<lambda>identifier.
                    case TMap_GetValue m identifier of
                      None \<Rightarrow> []
                    | Some l \<Rightarrow> map (\<lambda>a. (identifier, a)) (elems (hashlists h l)))
                 (map fst m))"

text \<open>
  An entry matches a pattern when, for each group of the pattern but the last, the key of the
  entry's path at that level is a member of the group (\<open>getKey\<close> gives the empty string for a
  level the path does not have; key levels of the path beyond the pattern's groups are not
  looked at), and the object's name is a member of the last group.
\<close>

definition pattern_matches :: "string list list \<Rightarrow> string \<Rightarrow> string \<Rightarrow> bool" where
  "pattern_matches keyMatrix identifier objectName =
     ((\<forall>ikey \<in> set [0..<length keyMatrix - 1].
          the (getKey identifier (int ikey) False) \<in> set (keyMatrix ! ikey))
      \<and> keyMatrix \<noteq> [] \<and> objectName \<in> set (last keyMatrix))"

definition getSum_matches ::
  "'p heap \<Rightarrow> MergeableCollection \<Rightarrow> string \<Rightarrow> (string \<times> addr) list" where
  "getSum_matches h c idPattern =
     filter (\<lambda>(identifier, a).
               pattern_matches (keyMatrix_of idPattern) identifier (GetName (objects h a)))
            (stored_entries h (TMap_of (Map c)))"

text \<open>Folding one match in: the first match is cloned and the clone becomes the
  accumulator, every later match is merged into the accumulator with \<open>MergeObject\<close>.\<close>

definition sum_step ::
  "('p TObject \<Rightarrow> 'p TObject \<Rightarrow> 'p TObject) \<Rightarrow> addr \<Rightarrow> 'p heap \<times> addr option
     \<Rightarrow> 'p heap \<times> addr option" where
  "sum_step call_Merge a hs =
     (case hs of
        (h, None) \<Rightarrow> (let (h1, clone) = Clone h a in (h1, Some clone))
      | (h, Some acc) \<Rightarrow> (fst (MergeObject call_Merge h acc a), Some acc))"

definition getSum_spec ::
  "('p TObject \<Rightarrow> 'p TObject \<Rightarrow> 'p TObject) \<Rightarrow> 'p heap \<Rightarrow> MergeableCollection \<Rightarrow> string
     \<Rightarrow> ('p heap \<times> MergeableCollection) \<times> addr option" where
  "getSum_spec call_Merge h c idPattern =
     (let (h1, sumObject) =
            fold (sum_step call_Merge) (map snd (getSum_matches h c idPattern)) (h, None)
      in ((h1, Map c), sumObject))"

text \<open>Every stored object lies below the heap's allocation pointer, so that a clone is a
  new object.\<close>

definition stored_below :: "'p heap \<Rightarrow> TMap \<Rightarrow> bool" where
  "stored_below h m = (\<forall>(identifier, a) \<in> set (stored_entries h m). a < next_addr h)"

text \<open>For the proofs: what the loops of \<open>getSum\<close> keep true of the heap \<open>h\<close> and the
  accumulator, for the heap \<open>h0\<close> at the start and its allocation pointer \<open>N\<close>.\<close>

definition sum_invariant :: "nat \<Rightarrow> 'p heap \<Rightarrow> 'p heap \<times> addr option \<Rightarrow> bool" where
  "sum_invariant N h0 hs =
     (case hs of
        (h, s) \<Rightarrow>
          (\<forall>a<N. GetName (objects h a) = GetName (objects h0 a))
          \<and> hashlists h = hashlists h0 \<and> N \<le> next_addr h
          \<and> (case s of None \<Rightarrow> True | Some acc \<Rightarrow> N \<le> acc))"

section \<open>Example objects and stores\<close>

text \<open>Two ROOT classes as the code sees them, and a payload whose \<open>Merge\<close> adds up a
  count of entries.\<close>

definition TH1F :: TClass where
  "TH1F = \<lparr>ClassName = ''TH1F'', base_classes = [''TH1'', ''TNamed'', ''TObject''],
           has_Merge = True\<rparr>"

definition TProfile :: TClass where
  "TProfile = \<lparr>ClassName = ''TProfile'', base_classes = [''TH1D'', ''TH1'', ''TNamed'', ''TObject''],
               has_Merge = True\<rparr>"

definition add_entries :: "int TObject \<Rightarrow> int TObject \<Rightarrow> int TObject" where
  "add_entries baseObject objToAdd = baseObject\<lparr>payload := payload baseObject + payload objToAdd\<rparr>"

definition named :: "string \<Rightarrow> TClass \<Rightarrow> int \<Rightarrow> int TObject" where
  "named n cl v = \<lparr>GetName = n, IsA = cl, payload = v\<rparr>"

text \<open>A heap with three objects: a \<open>TH1F\<close> and a \<open>TProfile\<close>, both named \<open>h\<close>, and a
  \<open>TH1F\<close> named \<open>name\<close>. New cells are taken from address 10 on.\<close>

definition heap0 :: "int heap" where
  "heap0 =
     \<lparr>objects = (\<lambda>a. if a = 0 then named ''h'' TH1F 5
                       else if a = 1 then named ''h'' TProfile 7
                       else if a = 2 then named ''name'' TH1F 3
                       else named [] TH1F 0),
      hashlists = (\<lambda>a. \<lparr>list_name = [], elems = []\<rparr>),
      next_addr = 10, gDirectory = None\<rparr>"

definition empty_store :: MergeableCollection where
  "empty_store = new_MergeableCollection ''HC'' []"

text \<open>Stores built with \<open>adopt\<close> on the example heap: one object \<open>h\<close> under \<open>/DET/\<close>; one
  object \<open>h\<close> at top level; one object \<open>name\<close> under \<open>/x/y/\<close>; one object \<open>name\<close>
  under \<open>/A/B/\<close>.\<close>

definition store_DET :: "int heap \<times> MergeableCollection" where
  "store_DET = fst (adopt heap0 empty_store ''/DET/'' (Some 0))"

definition store_top :: "int heap \<times> MergeableCollection" where
  "store_top = fst (adopt_top heap0 empty_store (Some 0))"

definition store_xy :: "int heap \<times> MergeableCollection" where
  "store_xy = fst (adopt heap0 empty_store ''/x/y/'' (Some 2))"

definition store_AB :: "int heap \<times> MergeableCollection" where
  "store_AB = fst (adopt heap0 empty_store ''/A/B/'' (Some 2))"

text \<open>A destination with the \<open>TH1F\<close> named \<open>h\<close> under \<open>/A/\<close>, and on the heap it leaves a
  source with the \<open>TProfile\<close> named \<open>h\<close> under \<open>/A/\<close>.\<close>

definition dest_A :: "int heap \<times> MergeableCollection" where
  "dest_A = fst (adopt heap0 empty_store ''/A/'' (Some 0))"

definition source_A :: "int heap \<times> MergeableCollection" where
  "source_A = fst (adopt (fst dest_A) empty_store ''/A/'' (Some 1))"

text \<open>A store with the \<open>TH1F\<close> named \<open>h\<close> under \<open>/A/\<close> and the \<open>TProfile\<close> named \<open>h\<close> under
  \<open>/B/\<close>.\<close>

definition store_A_B :: "int heap \<times> MergeableCollection" where
  "store_A_B = fst (adopt (fst dest_A) (snd dest_A) ''/B/'' (Some 1))"

text \<open>The two collections \<open>dest_A\<close> (at address 0) and \<open>source_A\<close> (at address 1) as
  cells of a store of collections; the heap is the one that \<open>source_A\<close> has left.\<close>

definition collections_A :: collections where
  "collections_A = (\<lambda>a. if a = 0 then snd dest_A else if a = 1 then snd source_A else empty_store)"


section \<open>Proofs: the path codec\<close>

lemma slash_pos_append: "slash_pos off (a @ b) = slash_pos off a @ slash_pos (off + length a) b"
  by (induction a arbitrary: off) auto

lemma slash_pos_none: "CHR ''/'' \<notin> set s \<Longrightarrow> slash_pos off s = []"
  by (induction s arbitrary: off) auto

lemma splitIndexLoop_slash_pos:
  "start \<le> length s \<Longrightarrow> splitIndexLoop s start acc = acc @ slash_pos start (drop start s)"
proof (induction s start acc rule: splitIndexLoop.induct)
  case (1 s start acc)
  show ?case
  proof (cases "start < length s")
    case False
    with 1(2) show ?thesis by (subst splitIndexLoop.simps) simp
  next
    case True
    let ?d = "drop start s"
    let ?t = "takeWhile (\<lambda>x. x \<noteq> CHR ''/'') ?d"
    have split: "?d = ?t @ dropWhile (\<lambda>x. x \<noteq> CHR ''/'') ?d" by simp
    have tnone: "slash_pos start ?t = []"
      by (rule slash_pos_none) (auto dest: set_takeWhileD)
    show ?thesis
    proof (cases "dropWhile (\<lambda>x. x \<noteq> CHR ''/'') ?d")
      case Nil
      have "Index s CHR ''/'' start = None" unfolding Index_def Nil by simp
      moreover have "slash_pos start ?d = []"
        using split tnone unfolding Nil by simp
      ultimately show ?thesis using True by (simp add: splitIndexLoop.simps[of s start acc])
    next
      case (Cons x xs)
      define pos where "pos = start + length ?t"
      have idx: "Index s CHR ''/'' start = Some pos" unfolding Index_def Cons pos_def by simp
      have x: "x = CHR ''/''" using Cons hd_dropWhile[of "\<lambda>x. x \<noteq> CHR ''/''" ?d] by auto
      have d: "?d = ?t @ CHR ''/'' # xs" using split x unfolding Cons by simp
      have len: "length ?d = length ?t + 1 + length xs" using arg_cong[OF d, of length] by simp
      have posle: "pos + 1 \<le> length s" using len True by (simp add: pos_def)
      have "drop (pos + 1) s = drop (length ?t + 1) ?d" by (simp add: pos_def add.commute)
      also have "\<dots> = xs" by (subst d) simp
      finally have dr: "drop (pos + 1) s = xs" .
      have "slash_pos start ?d = pos # slash_pos (pos + 1) xs"
        by (subst d) (simp add: slash_pos_append tnone pos_def)
      moreover have "splitIndexLoop s (pos + 1) (acc @ [pos]) = (acc @ [pos]) @ slash_pos (pos + 1) (drop (pos + 1) s)"
        using 1(1)[OF True idx posle] .
      ultimately show ?thesis using True idx dr
        by (simp add: splitIndexLoop.simps[of s start acc])
    qed
  qed
qed

lemma ReplaceAll_seg:
  "CHR ''/'' \<notin> set seg \<Longrightarrow> ReplaceAll (seg @ rest) ''//'' ''/'' = seg @ ReplaceAll rest ''//'' ''/''"
  by (induction seg) auto

lemma ReplaceAll_slash_seg:
  "valid_segment seg \<Longrightarrow>
   ReplaceAll (CHR ''/'' # seg @ rest) ''//'' ''/'' = CHR ''/'' # seg @ ReplaceAll rest ''//'' ''/''"
  using ReplaceAll_seg[of seg rest] by (cases seg) (auto simp: valid_segment_def)

lemma ReplaceAll_canonical:
  "\<forall>seg\<in>set segs. valid_segment seg \<Longrightarrow>
   ReplaceAll (concat (map (\<lambda>s. ''/'' @ s) segs) @ ''/'') ''//'' ''/'' = concat (map (\<lambda>s. ''/'' @ s) segs) @ ''/''"
proof (induction segs)
  case Nil
  show ?case by simp
next
  case (Cons seg segs)
  then have v: "valid_segment seg" and IH: "ReplaceAll (concat (map (\<lambda>s. ''/'' @ s) segs) @ ''/'') ''//'' ''/'' = concat (map (\<lambda>s. ''/'' @ s) segs) @ ''/''"
    by auto
  have e: "concat (map (\<lambda>s. ''/'' @ s) (seg # segs)) @ ''/''
           = CHR ''/'' # seg @ (concat (map (\<lambda>s. ''/'' @ s) segs) @ ''/'')" by simp
  show ?case by (simp only: e ReplaceAll_slash_seg[OF v] IH)
qed

lemma join_segments_concat:
  "segs \<noteq> [] \<Longrightarrow> ''/'' @ join_segments segs = concat (map (\<lambda>s. ''/'' @ s) segs)"
  by (induction segs rule: join_segments.induct) auto

lemma valid_segment_ends:
  "valid_segment seg \<Longrightarrow> seg \<noteq> [] \<and> hd seg \<noteq> CHR ''/'' \<and> last seg \<noteq> CHR ''/''"
  unfolding valid_segment_def by (metis hd_in_set last_in_set)

lemma join_segments_ends:
  "segs \<noteq> [] \<Longrightarrow> \<forall>seg\<in>set segs. valid_segment seg \<Longrightarrow>
   join_segments segs \<noteq> [] \<and> hd (join_segments segs) \<noteq> CHR ''/'' \<and> last (join_segments segs) \<noteq> CHR ''/''"
proof (induction segs rule: join_segments.induct)
  case 1
  then show ?case by simp
next
  case (2 seg)
  then show ?case using valid_segment_ends[of seg] by simp
next
  case (3 seg v va)
  then show ?case using valid_segment_ends[of seg] by simp
qed

lemma EndsWith_slash: "EndsWith s ''/'' = (s \<noteq> [] \<and> last s = CHR ''/'')"
  by (cases s rule: rev_cases) (auto simp: EndsWith_def)

lemma BeginsWith_slash: "BeginsWith s ''/'' = (s \<noteq> [] \<and> hd s = CHR ''/'')"
  by (cases s) (auto simp: BeginsWith_def)

lemma correctIdentifier_joined:
  assumes ne: "segs \<noteq> []" and v: "\<forall>seg\<in>set segs. valid_segment seg"
    and l: "lead = [] \<or> lead = ''/''" and t: "trail = [] \<or> trail = ''/''"
  shows "correctIdentifier (lead @ join_segments segs @ trail) = canonical segs"
proof -
  let ?j = "join_segments segs"
  from join_segments_ends[OF ne v]
  have j: "?j \<noteq> []" "hd ?j \<noteq> CHR ''/''" "last ?j \<noteq> CHR ''/''" by auto
  have c: "''/'' @ ?j @ ''/'' = canonical segs"
    using join_segments_concat[OF ne] by (simp add: canonical_def)
  have r: "ReplaceAll (''/'' @ ?j @ ''/'') ''//'' ''/'' = canonical segs"
    unfolding c unfolding canonical_def using ReplaceAll_canonical[OF v] .
  from l t show ?thesis
  proof (elim disjE)
    assume "lead = []" "trail = []"
    then show ?thesis using j r
      by (simp add: correctIdentifier_def IsNull_def EndsWith_slash BeginsWith_slash Let_def)
  next
    assume "lead = []" "trail = ''/''"
    then show ?thesis using j r
      by (simp add: correctIdentifier_def IsNull_def EndsWith_slash BeginsWith_slash Let_def)
  next
    assume "lead = ''/''" "trail = []"
    then show ?thesis using j r
      by (simp add: correctIdentifier_def IsNull_def EndsWith_slash BeginsWith_slash Let_def)
  next
    assume "lead = ''/''" "trail = ''/''"
    then show ?thesis using j r
      by (simp add: correctIdentifier_def IsNull_def EndsWith_slash BeginsWith_slash Let_def)
  qed
qed

lemma internalDecode_at:
  assumes S: "S = pre @ ''/'' @ seg @ ''/'' @ rest"
    and i: "length (slash_pos 0 pre) = i"
    and seg: "CHR ''/'' \<notin> set seg"
    and pre: "pre = [] \<or> hd pre = CHR ''/''"
  shows "internalDecode S (int i) = Some seg"
proof -
  have hdS: "length S > 0 \<and> hd S = CHR ''/''" using S pre by (cases pre) auto
  have sp: "splitIndexLoop S 0 [] = slash_pos 0 pre @ [length pre, length pre + 1 + length seg]
              @ slash_pos (length pre + 1 + length seg + 1) rest"
    using splitIndexLoop_slash_pos[of 0 S "[]"]
    by (simp add: S slash_pos_append slash_pos_none[OF seg])
  let ?sp = "splitIndexLoop S 0 []"
  have n0: "?sp ! i = length pre" unfolding sp using i by (simp add: nth_append)
  have n1: "?sp ! (i + 1) = length pre + 1 + length seg" unfolding sp using i by (simp add: nth_append)
  have len: "length ?sp \<ge> i + 2" unfolding sp using i by simp
  have sub: "SubString S (length pre + 1) (length seg) = seg"
    by (simp add: SubString_def S)
  from len have c1: "\<not> int i \<ge> int (length ?sp) - 1" by linarith
  show ?thesis
    unfolding internalDecode_def Let_def using hdS c1 n0 n1 sub
    by (simp add: nat_add_distrib)
qed

lemma slash_count_prefix:
  "\<forall>seg\<in>set segs. CHR ''/'' \<notin> set seg \<Longrightarrow>
   length (slash_pos off (concat (map (\<lambda>s. ''/'' @ s) segs))) = length segs"
  by (induction segs arbitrary: off) (auto simp: slash_pos_append slash_pos_none)

lemma canonical_split:
  assumes i: "i < length segs"
  shows "\<exists>rest. canonical segs @ tail
           = concat (map (\<lambda>s. ''/'' @ s) (take i segs)) @ ''/'' @ (segs ! i) @ ''/'' @ rest"
proof -
  have segs: "segs = take i segs @ (segs ! i) # drop (Suc i) segs"
    using i by (simp add: id_take_nth_drop)
  have "canonical segs @ tail = concat (map (\<lambda>s. ''/'' @ s) (take i segs)) @ ''/'' @ (segs ! i)
          @ (concat (map (\<lambda>s. ''/'' @ s) (drop (Suc i) segs)) @ ''/'' @ tail)"
    unfolding canonical_def by (subst segs) simp
  moreover have "\<exists>rest. concat (map (\<lambda>s. ''/'' @ s) (drop (Suc i) segs)) @ ''/'' @ tail = ''/'' @ rest"
    by (cases "drop (Suc i) segs") auto
  ultimately show ?thesis by metis
qed

lemma internalDecode_canonical:
  assumes v: "\<forall>seg\<in>set segs. CHR ''/'' \<notin> set seg" and i: "i < length segs"
  shows "internalDecode (canonical segs @ tail) (int i) = Some (segs ! i)"
proof -
  from canonical_split[OF i] obtain rest where
    S: "canonical segs @ tail = concat (map (\<lambda>s. ''/'' @ s) (take i segs)) @ ''/'' @ (segs ! i) @ ''/'' @ rest"
    by blast
  have vt: "\<forall>seg\<in>set (take i segs). CHR ''/'' \<notin> set seg" using v by (auto dest: in_set_takeD)
  have n: "length (slash_pos 0 (concat (map (\<lambda>s. ''/'' @ s) (take i segs)))) = i"
    using slash_count_prefix[OF vt] i by simp
  have s: "CHR ''/'' \<notin> set (segs ! i)" using v i by auto
  have p: "concat (map (\<lambda>s. ''/'' @ s) (take i segs)) = [] \<or> hd (concat (map (\<lambda>s. ''/'' @ s) (take i segs))) = CHR ''/''"
    by (cases "take i segs") auto
  show ?thesis by (rule internalDecode_at[OF S n s p])
qed

text \<open>
  Claim C5 (round trip). For every sequence of valid key segments (each non-empty, none
  with a separator), joined with one separator between neighbours, with or without a
  leading and a trailing separator: \<open>correctIdentifier\<close> followed by \<open>getKey\<close> (with
  either value of \<open>idContainsObjName\<close>) or by \<open>internalDecode\<close> at an index \<open>i\<close> below the
  number of segments gives back exactly the \<open>i\<close>-th segment.
\<close>

theorem roundtrip:
  assumes "\<forall>seg\<in>set segs. valid_segment seg" and "i < length segs"
    and "lead = [] \<or> lead = ''/''" and "trail = [] \<or> trail = ''/''"
  shows "getKey (correctIdentifier (lead @ join_segments segs @ trail)) (int i) False = Some (segs ! i)
       \<and> getKey (correctIdentifier (lead @ join_segments segs @ trail)) (int i) True = Some (segs ! i)
       \<and> internalDecode (correctIdentifier (lead @ join_segments segs @ trail)) (int i) = Some (segs ! i)"
proof -
  from assms(2) have ne: "segs \<noteq> []" by auto
  from assms(1) have sf: "\<forall>seg\<in>set segs. CHR ''/'' \<notin> set seg" by (simp add: valid_segment_def)
  have c: "correctIdentifier (lead @ join_segments segs @ trail) = canonical segs"
    by (rule correctIdentifier_joined[OF ne assms(1,3,4)])
  show ?thesis
    unfolding c getKey_def
    using internalDecode_canonical[OF sf assms(2), of "''/dummy''"] internalDecode_canonical[OF sf assms(2), of "[]"]
    by simp
qed

theorem roundtrip_witness:
  "getKey (correctIdentifier ''DET/STATION1'') 1 False = Some ''STATION1''"
  using roundtrip[of "[''DET'', ''STATION1'']" 1 "[]" "[]"]
  by (simp add: valid_segment_def)

section \<open>Proofs: merging, lookups, removal, projection, iteration\<close>

lemma Merge_collections_count:
  "snd (Merge_collections call_Merge h c xs count) = count + int (length (filter is_Collection xs))"
proof (induction xs arbitrary: h c count)
  case Nil
  show ?case by simp
next
  case (Cons x xs)
  show ?case
  proof (cases x)
    case (Collection mergeCol)
    then show ?thesis using Cons.IH by (simp add: Let_def split: prod.splits)
  next
    case (Other a)
    then show ?thesis using Cons.IH by simp
  qed
qed

text \<open>
  Claim C2. For every destination store and every list of N sources that are all
  MergeableCollections (N = 0 included), \<open>Merge\<close> returns N + 1.
\<close>

theorem Merge_returns_count:
  assumes "list_all is_Collection sources"
  shows "snd (Merge call_Merge h c (Some sources)) = int (length sources) + 1"
proof -
  from assms have f: "filter is_Collection sources = sources"
    by (simp add: list_all_iff)
  have "snd (Merge_collections call_Merge h c sources 0) = int (length sources)"
    using Merge_collections_count[of call_Merge h c sources 0] f by simp
  then show ?thesis
    by (cases "Merge_collections call_Merge h c sources 0") (auto simp: Merge_def)
qed

theorem Merge_returns_count_witness:
  "snd (Merge add_entries heap0 empty_store (Some [Collection empty_store, Collection empty_store])) = 3
   \<and> snd (Merge add_entries heap0 empty_store (Some [])) = 1"
  using Merge_returns_count[of "[Collection empty_store, Collection empty_store]" add_entries heap0 empty_store]
        Merge_returns_count[of "[]" add_entries heap0 empty_store]
  by simp

text \<open>
  Claim C10. Whenever \<open>getObject(fullIdentifier)\<close> returns null, \<open>h2(fullIdentifier)\<close> and
  \<open>prof(fullIdentifier)\<close> call \<open>IsA()\<close> through the null pointer, whereas
  \<open>histo(fullIdentifier)\<close> (for an identifier without action suffix, where it looks up the
  same object) returns null.
\<close>

theorem shortcut_null_dereference:
  assumes "snd (getObject h c fullIdentifier) = None"
  shows "snd (h2 h c fullIdentifier) = Inl NullDereference
       \<and> snd (prof h c fullIdentifier) = Inl NullDereference
       \<and> (CHR '':'' \<notin> set fullIdentifier \<longrightarrow> snd (histo h c fullIdentifier) = Inr None)"
  using assms
  by (auto simp: h2_def prof_def histo_def getObject_def histoWithAction_def split: prod.splits)

lemma missing_in_store_DET:
  "snd (getObject (fst store_DET) (snd store_DET) ''/DET/missing'') = None"
  by code_simp

theorem shortcut_null_dereference_witness:
  "snd (h2 (fst store_DET) (snd store_DET) ''/DET/missing'') = Inl NullDereference
   \<and> snd (prof (fst store_DET) (snd store_DET) ''/DET/missing'') = Inl NullDereference
   \<and> snd (histo (fst store_DET) (snd store_DET) ''/DET/missing'') = Inr None"
  using shortcut_null_dereference[OF missing_in_store_DET] by simp

text \<open>The classes of the two objects play no part in \<open>MergeObject\<close>: whenever the base
  object is mergeable at all, the payload's \<open>Merge\<close> runs on it.\<close>

lemma MergeObject_ignores_class:
  assumes "InheritsFrom (IsA (objects h baseObject)) ''TObject''"
    and "has_Merge (IsA (objects h baseObject))"
  shows "MergeObject call_Merge h baseObject objToAdd
         = (h\<lparr>objects := (objects h)
                 (baseObject := call_Merge (objects h baseObject) (objects h objToAdd))\<rparr>, True)"
  using assms by (simp add: MergeObject_def Class_def)

text \<open>
  Claim C1 (the code does otherwise). The destination holds a \<open>TH1F\<close> named \<open>h\<close> under
  \<open>/A/\<close> with 5 entries, the source a \<open>TProfile\<close> named \<open>h\<close> under \<open>/A/\<close> with 7.
  \<open>MergeObject\<close> does not refuse the pair: it returns true and the payload's \<open>Merge\<close> has
  run on the destination object, directly and during \<open>Merge\<close> of the two stores.
\<close>

theorem MergeObject_accepts_other_class:
  "ClassName (IsA (objects (fst source_A) 0)) = ''TH1F''
   \<and> ClassName (IsA (objects (fst source_A) 1)) = ''TProfile''
   \<and> snd (getObject (fst source_A) (snd dest_A) ''/A/h'') = Some 0
   \<and> snd (getObject (fst source_A) (snd source_A) ''/A/h'') = Some 1
   \<and> snd (MergeObject add_entries (fst source_A) 0 1) = True
   \<and> payload (objects (fst (MergeObject add_entries (fst source_A) 0 1)) 0) = 12
   \<and> payload (objects (fst source_A) 0) = 5
   \<and> payload (objects (fst (fst (Merge add_entries (fst source_A) (snd dest_A)
                                      (Some [Collection (snd source_A)])))) 0) = 12"
  by code_simp

text \<open>
  Claim C4 (the code does otherwise). The store holds the object \<open>name\<close> under \<open>/x/y/\<close>,
  a path that contains \<open>/x/\<close>. \<open>project("/x/")\<close> returns a new store without any key and
  without any object: the objects are read from the list stored under the key \<open>/x/\<close>
  itself, which this store does not have.
\<close>

theorem project_loses_objects:
  "snd (getObject (fst store_xy) (snd store_xy) ''/x/y/name'') = Some 2
   \<and> Contains ''/x/y/'' ''/x/''
   \<and> snd (project (fst store_xy) (snd store_xy) ''/x/'')
       = Some (new_MergeableCollection ''HC /x/'' [])
   \<and> numberOfKeys (new_MergeableCollection ''HC /x/'' []) = 0
   \<and> (case snd (project (fst store_xy) (snd store_xy) ''/x/'') of
         None \<Rightarrow> False
       | Some projected \<Rightarrow>
           snd (getObject (fst (fst (project (fst store_xy) (snd store_xy) ''/x/''))) projected ''/y/name'') = None)"
  by code_simp

text \<open>
  Claim C7 (the code does otherwise). The store holds the object \<open>h\<close> at top level, and
  \<open>getObject("h")\<close> returns it. \<open>remove("h")\<close> returns null and removes nothing:
  afterwards \<open>getObject("h")\<close> still returns the object. The number of keys is unchanged.
\<close>

theorem remove_top_level_fails:
  "snd (getObject (fst store_top) (snd store_top) ''h'') = Some 0
   \<and> snd (remove (fst store_top) (snd store_top) ''h'') = None
   \<and> snd (getObject (fst (fst (remove (fst store_top) (snd store_top) ''h'')))
                      (snd (fst (remove (fst store_top) (snd store_top) ''h''))) ''h'') = Some 0
   \<and> numberOfKeys (snd (fst (remove (fst store_top) (snd store_top) ''h''))) = numberOfKeys (snd store_top)"
  by code_simp

text \<open>After a \<open>Reset\<close> of an iterator that had a cursor, whether in the middle of a list
  or at the end of the iteration, \<open>Next\<close> calls through a destroyed cursor.\<close>

lemma Next_after_Reset:
  assumes "Reset it = Inr it'"
    and "fHashListIterator it \<noteq> Null \<or> fMapIterator it \<noteq> Null"
  shows "Next h it' = Inl UseAfterDelete"
proof (cases "fHashListIterator it")
  case Null
  with assms obtain ks where "fMapIterator it = Live ks"
    by (cases "fMapIterator it") (auto simp: Reset_def delete_pointer_def)
  with Null assms(1) have "fHashListIterator it' = Null" "fMapIterator it' = Deleted"
    by (auto simp: Reset_def delete_pointer_def)
  then show ?thesis by (subst Next.simps) (simp add: Next_enter_def)
next
  case (Live objs)
  with assms(1) have "fHashListIterator it' = Deleted"
    by (auto simp: Reset_def delete_pointer_def split: sum.splits)
  then show ?thesis by (subst Next.simps) (simp add: Next_enter_def)
next
  case Deleted
  with assms(1) show ?thesis by (simp add: Reset_def delete_pointer_def)
qed

text \<open>
  Claim C9 (the code does otherwise). An iterator over the store with one object under
  \<open>/DET/\<close> returns that object on the first \<open>Next\<close>. After \<open>Reset\<close> both cursor pointers
  hold destroyed cursors, the following \<open>Next\<close> calls through one of them instead of
  starting again, and a second \<open>Reset\<close> deletes them twice. The same happens for \<open>Reset\<close>
  after the iteration has ended.
\<close>

theorem Next_after_Reset_faults:
  "(case createIterator (snd store_DET) True of
      None \<Rightarrow> False
    | Some it0 \<Rightarrow>
        (case Next (fst store_DET) it0 of
           Inl f \<Rightarrow> False
         | Inr (it1, first) \<Rightarrow>
             first = Some 0
             \<and> (case Reset it1 of
                  Inl f \<Rightarrow> False
                | Inr it2 \<Rightarrow>
                    fHashListIterator it2 = Deleted \<and> fMapIterator it2 = Deleted
                    \<and> Next (fst store_DET) it2 = Inl UseAfterDelete
                    \<and> Reset it2 = Inl DoubleDelete)
             \<and> (case Next (fst store_DET) it1 of
                  Inl f \<Rightarrow> False
                | Inr (it3, second) \<Rightarrow>
                    second = None
                    \<and> (case Reset it3 of
                         Inl f \<Rightarrow> False
                       | Inr it4 \<Rightarrow> Next (fst store_DET) it4 = Inl UseAfterDelete))))"
  by code_simp

section \<open>Proofs: Map and attach\<close>




text \<open>
  Claim C3 (the code does otherwise). The destination (address 0) holds the list 10 under
  \<open>/A/\<close>, the source (address 1) the list 11, with the object 1, under \<open>/A/\<close>. The call
  \<open>attach(source, "sub")\<close> succeeds and destroys nothing. Afterwards the source is what it
  was: it has its key, its list and its object; and the destination's new key \<open>/sub/A/\<close>
  holds the same list 11. The list is now a value of two maps that both own their values;
  nothing has been moved out of the source.
\<close>

theorem attach_leaves_list_in_both_maps:
  "(case attach collections_A 0 1 ''sub'' False of
      Inl f \<Rightarrow> False
    | Inr ((cs, destroyed), ok) \<Rightarrow>
        ok \<and> destroyed = []
        \<and> cs 1 = snd source_A
        \<and> numberOfKeys (cs 1) = 1
        \<and> TMap_GetValue (TMap_of (cs 1)) ''/A/'' = Some 11
        \<and> snd (getObject (fst source_A) (cs 1) ''/A/h'') = Some 1
        \<and> fMap (cs 0) = Some [(''/A/'', Some 10), (''/sub/A/'', Some 11)]
        \<and> snd (getObject (fst source_A) (cs 0) ''/sub/A/h'') = Some 1)"
  by code_simp

text \<open>Two more calls on the same collections. Attaching a collection to itself has no
  result. And attaching the source a second time, now under the key \<open>/sub/A/\<close> that the
  first call has made, with pruning: \<open>prune\<close> destroys the list 11 of that key, which is the
  source's own list, and the loop then adds this destroyed list to the destination again,
  while the source still holds it.\<close>

lemma attach_to_itself:
  "(case attach collections_A 1 1 ''sub'' False of
      Inl f \<Rightarrow> f = ModifiedWhileIterated
    | Inr r \<Rightarrow> False)"
  by code_simp

lemma attach_again_with_prune:
  "(case attach collections_A 0 1 ''sub'' False of
      Inl f \<Rightarrow> False
    | Inr ((cs, destroyed), ok) \<Rightarrow>
        (case attach cs 0 1 ''/sub/A/'' True of
           Inl f \<Rightarrow> False
         | Inr ((cs', destroyed'), ok') \<Rightarrow>
             ok' \<and> destroyed' = [11]
             \<and> fMap (cs' 0) = Some [(''/A/'', Some 10), (''/sub/A/A/'', Some 11)]
             \<and> fMap (cs' 1) = Some [(''/A/'', Some 11)]))"
  by code_simp

section \<open>Proofs: adopt and lookup by full identifier\<close>










lemma internalDecode_defined: "- 1 \<le> index \<Longrightarrow> internalDecode identifier index \<noteq> None"
  by (auto simp: internalDecode_def Let_def split: list.splits)









section \<open>Proofs: getSum\<close>

lemma sum_step_inv:
  "sum_invariant N h0 hs \<Longrightarrow> sum_invariant N h0 (sum_step call_Merge a hs)"
  by (cases hs)
     (auto simp: sum_invariant_def sum_step_def Clone_def MergeObject_def Let_def
           split: option.splits)

lemma fold_sum_step_inv:
  "sum_invariant N h0 hs \<Longrightarrow> sum_invariant N h0 (fold (sum_step call_Merge) as hs)"
  by (induction as arbitrary: hs) (auto simp: sum_step_inv)

lemma getSum_objects_fold:
  assumes "sum_invariant N h0 (h, s)" and "\<forall>a\<in>set objs. a < N"
  shows "getSum_objects call_Merge h keyMatrix s objs
         = fold (sum_step call_Merge)
             (filter (\<lambda>a. matchKey (GetName (objects h0 a)) (lastSubKeyList keyMatrix)) objs) (h, s)"
  using assms
proof (induction objs arbitrary: h s)
  case Nil
  show ?case by simp
next
  case (Cons obj objs)
  from Cons.prems have nm: "GetName (objects h obj) = GetName (objects h0 obj)"
    by (simp add: sum_invariant_def)
  from Cons.prems have rest: "\<forall>a\<in>set objs. a < N" by simp
  show ?case
  proof (cases "matchKey (GetName (objects h0 obj)) (lastSubKeyList keyMatrix)")
    case False
    then show ?thesis using nm Cons.IH[OF Cons.prems(1) rest] by simp
  next
    case True
    have inv: "sum_invariant N h0 (sum_step call_Merge obj (h, s))"
      using Cons.prems(1) by (rule sum_step_inv)
    obtain h1 s1 where hs1: "sum_step call_Merge obj (h, s) = (h1, s1)" by (cases "sum_step call_Merge obj (h, s)")
    have step: "getSum_objects call_Merge h keyMatrix s (obj # objs)
                = getSum_objects call_Merge h1 keyMatrix s1 objs"
      using True nm hs1 by (auto simp: sum_step_def Let_def split: option.splits prod.splits)
    show ?thesis
      unfolding step using Cons.IH[OF inv[unfolded hs1] rest] True hs1 by simp
  qed
qed

lemma getSum_identifiers_fold:
  assumes "sum_invariant N h0 (h, s)"
    and "\<forall>identifier\<in>set ids. \<forall>l. TMap_GetValue m identifier = Some l \<longrightarrow>
           (\<forall>a\<in>set (elems (hashlists h0 l)). a < N)"
  shows "getSum_identifiers call_Merge h m keyMatrix s ids
         = fold (sum_step call_Merge)
             (concat (map (\<lambda>identifier.
                 if listMatchPattern keyMatrix identifier
                 then (case TMap_GetValue m identifier of
                         None \<Rightarrow> []
                       | Some l \<Rightarrow> filter (\<lambda>a. matchKey (GetName (objects h0 a)) (lastSubKeyList keyMatrix))
                                     (elems (hashlists h0 l)))
                 else []) ids))
             (h, s)"
  using assms
proof (induction ids arbitrary: h s)
  case Nil
  show ?case by simp
next
  case (Cons ident ids)
  from Cons.prems(2) have rest: "\<forall>identifier\<in>set ids. \<forall>l. TMap_GetValue m identifier = Some l \<longrightarrow>
           (\<forall>a\<in>set (elems (hashlists h0 l)). a < N)" by simp
  show ?case
  proof (cases "listMatchPattern keyMatrix ident")
    case False
    then show ?thesis using Cons.IH[OF Cons.prems(1) rest] by simp
  next
    case True
    show ?thesis
    proof (cases "TMap_GetValue m ident")
      case None
      then show ?thesis using True Cons.IH[OF Cons.prems(1) rest] by simp
    next
      case (Some l)
      let ?ms = "filter (\<lambda>a. matchKey (GetName (objects h0 a)) (lastSubKeyList keyMatrix)) (elems (hashlists h0 l))"
      have below: "\<forall>a\<in>set (elems (hashlists h0 l)). a < N" using Cons.prems(2) Some by simp
      have hl: "hashlists h = hashlists h0" using Cons.prems(1) by (simp add: sum_invariant_def)
      have objs: "getSum_objects call_Merge h keyMatrix s (elems (hashlists h l))
                  = fold (sum_step call_Merge) ?ms (h, s)"
        unfolding hl by (rule getSum_objects_fold[OF Cons.prems(1) below])
      obtain h1 s1 where hs1: "fold (sum_step call_Merge) ?ms (h, s) = (h1, s1)"
        by (cases "fold (sum_step call_Merge) ?ms (h, s)")
      have inv: "sum_invariant N h0 (h1, s1)"
        using fold_sum_step_inv[OF Cons.prems(1), of call_Merge ?ms] hs1 by simp
      show ?thesis
        using True Some objs hs1 Cons.IH[OF inv rest] by simp
    qed
  qed
qed

lemma listMatchPattern_iff:
  "listMatchPattern keyMatrix identifier
   = (\<forall>ikey \<in> set [0..<length keyMatrix - 1].
          the (getKey identifier (int ikey) False) \<in> set (keyMatrix ! ikey))"
  by (auto simp: listMatchPattern_def matchKey_def list_all_iff list_ex_iff)

lemma matchKey_last_iff:
  "matchKey objectName (lastSubKeyList keyMatrix)
   = (keyMatrix \<noteq> [] \<and> objectName \<in> set (last keyMatrix))"
  by (auto simp: matchKey_def lastSubKeyList_def list_ex_iff)

lemma pattern_matches_iff:
  "pattern_matches keyMatrix identifier objectName
   = (listMatchPattern keyMatrix identifier \<and> matchKey objectName (lastSubKeyList keyMatrix))"
  unfolding pattern_matches_def listMatchPattern_iff matchKey_last_iff by simp

lemma matches_of_list:
  "map snd (filter (\<lambda>(identifier, a). P identifier \<and> Q a) (map (\<lambda>a. (x, a)) xs))
   = (if P x then filter Q xs else [])"
  by (induction xs) auto

lemma matches_of_entries:
  "map snd (filter (\<lambda>(identifier, a). P identifier \<and> Q a)
      (concat (map (\<lambda>identifier. case g identifier of None \<Rightarrow> [] | Some l \<Rightarrow> map (\<lambda>a. (identifier, a)) (E l)) ids)))
   = concat (map (\<lambda>identifier. if P identifier then (case g identifier of None \<Rightarrow> [] | Some l \<Rightarrow> filter Q (E l)) else []) ids)"
proof (induction ids)
  case Nil
  show ?case by simp
next
  case (Cons x ids)
  show ?case using Cons.IH matches_of_list[of P Q x] by (cases "g x") auto
qed

lemma fold_sum_step_Some:
  "snd (fold (sum_step call_Merge) as (h, Some acc)) = Some acc"
  by (induction as arbitrary: h) (auto simp: sum_step_def)

lemma fold_sum_step_None:
  "(snd (fold (sum_step call_Merge) as (h, None)) = None) = (as = [])"
  by (cases as) (auto simp: sum_step_def Clone_def fold_sum_step_Some)

text \<open>
  Claim C8, amended. For every store whose objects lie below the heap's allocation pointer,
  \<open>getSum\<close> is \<open>getSum_spec\<close>: the entries it includes are, in traversal order, those for
  which every group of the pattern but the last contains the key of the entry's path at
  that level (string equality; levels of the path beyond the pattern are not examined)
  and the last group contains the object's name; the first of them is cloned, the others
  are merged into the clone with \<open>MergeObject\<close>, one after the other; and the result is
  null exactly when no entry matches.
\<close>

theorem getSum_refines:
  assumes "stored_below h (TMap_of (Map c))"
  shows "getSum call_Merge h c idPattern = getSum_spec call_Merge h c idPattern
       \<and> ((snd (getSum call_Merge h c idPattern) = None) = (getSum_matches h c idPattern = []))"
proof -
  let ?m = "TMap_of (Map c)"
  let ?km = "keyMatrix_of idPattern"
  have inv: "sum_invariant (next_addr h) h (h, None)" by (simp add: sum_invariant_def)
  have wf: "\<forall>identifier\<in>set (map fst ?m). \<forall>l. TMap_GetValue ?m identifier = Some l \<longrightarrow>
           (\<forall>a\<in>set (elems (hashlists h l)). a < next_addr h)"
    using assms by (fastforce simp: stored_below_def stored_entries_def)
  have ms: "map snd (getSum_matches h c idPattern)
      = concat (map (\<lambda>identifier.
                 if listMatchPattern ?km identifier
                 then (case TMap_GetValue ?m identifier of
                         None \<Rightarrow> []
                       | Some l \<Rightarrow> filter (\<lambda>a. matchKey (GetName (objects h a)) (lastSubKeyList ?km))
                                     (elems (hashlists h l)))
                 else []) (map fst ?m))"
    unfolding getSum_matches_def stored_entries_def pattern_matches_iff
    by (rule matches_of_entries)
  have ids: "getSum_identifiers call_Merge h ?m ?km None (map fst ?m)
      = fold (sum_step call_Merge) (map snd (getSum_matches h c idPattern)) (h, None)"
    unfolding ms by (rule getSum_identifiers_fold[OF inv wf])
  have eq: "getSum call_Merge h c idPattern = getSum_spec call_Merge h c idPattern"
    by (simp add: getSum_def getSum_spec_def Let_def ids)
  have "(snd (getSum_spec call_Merge h c idPattern) = None) = (getSum_matches h c idPattern = [])"
    using fold_sum_step_None[of call_Merge "map snd (getSum_matches h c idPattern)" h]
    by (cases "fold (sum_step call_Merge) (map snd (getSum_matches h c idPattern)) (h, None)")
       (simp add: getSum_spec_def)
  with eq show ?thesis by simp
qed

lemma A_B_below: "stored_below (fst store_A_B) (TMap_of (Map (snd store_A_B)))"
  by code_simp

lemma A_B_spec:
  "snd (getSum_spec add_entries (fst store_A_B) (snd store_A_B) ''A,B/h'') = Some 12
   \<and> payload (objects (fst (fst (getSum_spec add_entries (fst store_A_B) (snd store_A_B) ''A,B/h''))) 12) = 12
   \<and> getSum_matches (fst store_A_B) (snd store_A_B) ''A,B/h'' = [(''/A/'', 0), (''/B/'', 1)]"
  by code_simp

theorem getSum_refines_witness:
  "stored_below (fst store_A_B) (TMap_of (Map (snd store_A_B)))
   \<and> snd (getSum add_entries (fst store_A_B) (snd store_A_B) ''A,B/h'') = Some 12
   \<and> payload (objects (fst (fst (getSum add_entries (fst store_A_B) (snd store_A_B) ''A,B/h''))) 12) = 12"
  using getSum_refines[OF A_B_below, of add_entries "''A,B/h''"] A_B_spec A_B_below
  by simp

text \<open>
  Claim C8 as stated fails: the store holds the object \<open>name\<close> under \<open>/A/B/\<close>. For the
  pattern \<open>A/name\<close> the group that corresponds to key level 1 is \<open>{name}\<close>, and the key of
  the path at level 1 is \<open>B\<close>, not a member of it; yet \<open>getSum\<close> includes the entry: it
  returns a clone of the object.
\<close>

theorem getSum_deeper_path_counterexample:
  "snd (getObject (fst store_AB) (snd store_AB) ''/A/B/name'') = Some 2
   \<and> keyMatrix_of ''A/name'' = [[''A''], [''name'']]
   \<and> getKey ''/A/B/'' 1 False = Some ''B''
   \<and> ''B'' \<notin> set (keyMatrix_of ''A/name'' ! 1)
   \<and> snd (getSum add_entries (fst store_AB) (snd store_AB) ''A/name'') = Some 11
   \<and> objects (fst (fst (getSum add_entries (fst store_AB) (snd store_AB) ''A/name''))) 11
       = objects (fst store_AB) 2"
  by code_simp

end
